theory Spec2Isabelle
  imports Complex_Main "HOL-Library.Char_ord" "HOL-Library.List_Lexorder"
begin

section \<open>Exceptions\<close>

text \<open>
  Every exception the pipeline can raise is a value. A function that can raise returns
  \<open>error + 'a\<close>, with \<open>Inl\<close> for the exception.
\<close>

datatype error =
    ValueError
  | OverflowError
  | TypeError
  | AttributeError
  | KeyError
  | UnicodeDecodeError
  | OSError
  | JSONDecodeError
  | HTTPError int string
  | MaxRetriesExceeded string

section \<open>Calendar dates\<close>

text \<open>
  Python's \<open>datetime.date\<close>: a year in 1..9999, a month and a day. Dates compare as the
  triples (year, month, day).
\<close>

record date =
  year :: nat
  month :: nat
  day :: nat

definition mk_date :: "nat \<Rightarrow> nat \<Rightarrow> nat \<Rightarrow> date" where
  "mk_date y m d = \<lparr>year = y, month = m, day = d\<rparr>"

definition date_le :: "date \<Rightarrow> date \<Rightarrow> bool" where
  "date_le a b =
     (year a < year b \<or> (year a = year b \<and>
        (month a < month b \<or> (month a = month b \<and> day a \<le> day b))))"

definition date_lt :: "date \<Rightarrow> date \<Rightarrow> bool" where
  "date_lt a b =
     (year a < year b \<or> (year a = year b \<and>
        (month a < month b \<or> (month a = month b \<and> day a < day b))))"

text \<open>Python's \<open>min(a, b)\<close>: the first argument unless the second is smaller.\<close>

definition date_min :: "date \<Rightarrow> date \<Rightarrow> date" where
  "date_min a b = (if date_lt b a then b else a)"

definition is_leap :: "nat \<Rightarrow> bool" where
  "is_leap y = (y mod 4 = 0 \<and> (y mod 100 \<noteq> 0 \<or> y mod 400 = 0))"

definition days_in_month :: "nat \<Rightarrow> nat \<Rightarrow> nat" where
  "days_in_month y m =
     (if m = 2 then (if is_leap y then 29 else 28)
      else if m = 4 \<or> m = 6 \<or> m = 9 \<or> m = 11 then 30 else 31)"

definition valid_date :: "date \<Rightarrow> bool" where
  "valid_date d =
     (1 \<le> year d \<and> year d \<le> 9999 \<and> 1 \<le> month d \<and> month d \<le> 12 \<and>
      1 \<le> day d \<and> day d \<le> days_in_month (year d) (month d))"

text \<open>
  \<open>d + relativedelta(months=1)\<close>: the month moves on by one, December rolls the year
  over, the day is clipped to the length of the new month, and a year beyond 9999 is
  rejected by \<open>date.replace\<close> with a ValueError.
\<close>

definition add_one_month :: "date \<Rightarrow> error + date" where
  "add_one_month d =
     (let m = month d + 1;
          y' = (if m > 12 then year d + 1 else year d);
          m' = (if m > 12 then m - 12 else m);
          d' = min (days_in_month y' m') (day d)
      in if y' > 9999 then Inl ValueError else Inr (mk_date y' m' d'))"

text \<open>
  \<open>d - timedelta(days=1)\<close>: the day before; before 0001-01-01 there is no date and
  Python raises OverflowError.
\<close>

definition minus_one_day :: "date \<Rightarrow> error + date" where
  "minus_one_day d =
     (if day d > 1 then Inr (mk_date (year d) (month d) (day d - 1))
      else if month d > 1 then
        Inr (mk_date (year d) (month d - 1) (days_in_month (year d) (month d - 1)))
      else if year d > 1 then Inr (mk_date (year d - 1) 12 31)
      else Inl OverflowError)"

text \<open>The day after a date, used to state that two windows are adjacent.\<close>

definition next_day :: "date \<Rightarrow> date" where
  "next_day d =
     (if day d < days_in_month (year d) (month d) then mk_date (year d) (month d) (day d + 1)
      else if month d < 12 then mk_date (year d) (month d + 1) 1
      else mk_date (year d + 1) 1 1)"

subsection \<open>Text of a date\<close>

definition digit_char :: "nat \<Rightarrow> char" where
  "digit_char n = ''0123456789'' ! (n mod 10)"

definition char_digit :: "char \<Rightarrow> nat option" where
  "char_digit c =
     (let k = (of_char c :: nat) in if 48 \<le> k \<and> k \<le> 57 then Some (k - 48) else None)"

text \<open>The decimal digits of a natural number, most significant first (\<open>str(n)\<close>).\<close>

fun str_nat :: "nat \<Rightarrow> string" where
  "str_nat n = (if n < 10 then [digit_char n] else str_nat (n div 10) @ [digit_char (n mod 10)])"

declare str_nat.simps [simp del]

text \<open>\<open>'%0wd' % n\<close>: decimal digits, padded with zeros on the left to width \<open>w\<close>.\<close>

definition zero_pad :: "nat \<Rightarrow> nat \<Rightarrow> string" where
  "zero_pad w n = replicate (w - length (str_nat n)) (CHR ''0'') @ str_nat n"

text \<open>\<open>date.isoformat()\<close>: \<open>'%04d-%02d-%02d'\<close>.\<close>

definition isoformat :: "date \<Rightarrow> string" where
  "isoformat d = zero_pad 4 (year d) @ ''-'' @ zero_pad 2 (month d) @ ''-'' @ zero_pad 2 (day d)"

text \<open>The value of a string of decimal digits; \<open>None\<close> when a character is not a digit.\<close>

fun digits_value :: "nat \<Rightarrow> string \<Rightarrow> nat option" where
  "digits_value acc [] = Some acc"
| "digits_value acc (c # cs) =
     (case char_digit c of None \<Rightarrow> None | Some k \<Rightarrow> digits_value (acc * 10 + k) cs)"

text \<open>
  \<open>pd.to_datetime(s).date()\<close>. The pandas parser is a library outside the repository and
  reads many spellings of a date, so the partitioner takes it as a parameter: on a text
  the parser either raises (\<open>Inl\<close>), or gives the missing timestamp \<open>NaT\<close> (\<open>Inr None\<close>, as
  for the empty text), or gives a calendar day.
\<close>

type_synonym date_parser = "string \<Rightarrow> error + date option"

text \<open>
  One such parser, used in the examples: it reads the ten characters \<open>YYYY-MM-DD\<close> of a
  calendar day, gives \<open>NaT\<close> on the empty text and raises ValueError on any other text.
\<close>

definition iso_day :: "string \<Rightarrow> date option" where
  "iso_day s =
     (if length s = 10 \<and> s ! 4 = CHR ''-'' \<and> s ! 7 = CHR ''-'' then
        (case (digits_value 0 (take 4 s), digits_value 0 (take 2 (drop 5 s)),
               digits_value 0 (drop 8 s)) of
           (Some y, Some m, Some d) \<Rightarrow>
             if valid_date (mk_date y m d) then Some (mk_date y m d) else None
         | _ \<Rightarrow> None)
      else None)"

definition iso_parser :: date_parser where
  "iso_parser s =
     (if s = [] then Inr None
      else case iso_day s of None \<Rightarrow> Inl ValueError | Some d \<Rightarrow> Inr (Some d))"

section \<open>Month partitioner\<close>

text \<open>
  The loop of \<open>month_ranges\<close>:
  \<^verbatim>\<open>
    while cur <= e:
        nxt = cur + relativedelta(months=1)
        last_day = nxt - timedelta(days=1)
        out.append((cur.isoformat(), min(last_day, e).isoformat()))
        cur = nxt
    return out
  \<close>
  The loop collects the windows as dates; \<open>month_ranges\<close> below turns the finished
  list into text, which gives the list the source builds entry by entry.
\<close>

function month_loop :: "date \<Rightarrow> date \<Rightarrow> (date \<times> date) list \<Rightarrow> error + (date \<times> date) list" where
  "month_loop cur e out =
     (if date_le cur e then
        (case add_one_month cur of
           Inl err \<Rightarrow> Inl err
         | Inr nxt \<Rightarrow>
             (case minus_one_day nxt of
                Inl err \<Rightarrow> Inl err
              | Inr last_day \<Rightarrow> month_loop nxt e (out @ [(cur, date_min last_day e)])))
      else Inr out)"
  by pat_completeness auto
termination
proof (relation "measures [\<lambda>(cur, e, out). year e + 1 - year cur, \<lambda>(cur, e, out). 13 - month cur]")
  show "wf (measures [\<lambda>(cur, e, out). year e + 1 - year cur, \<lambda>(cur, e, out). 13 - month cur])"
    by simp
next
  fix cur e :: date and out :: "(date \<times> date) list" and nxt last_day :: date
  assume le: "date_le cur e" and nx: "add_one_month cur = Inr nxt"
  have ye: "year cur \<le> year e"
    using le by (auto simp: date_le_def)
  show "((nxt, e, out @ [(cur, date_min last_day e)]), (cur, e, out))
          \<in> measures [\<lambda>(cur, e, out). year e + 1 - year cur, \<lambda>(cur, e, out). 13 - month cur]"
  proof (cases "month cur + 1 > 12")
    case True
    then have "year nxt = year cur + 1"
      using nx by (auto simp: add_one_month_def mk_date_def Let_def split: if_splits)
    then show ?thesis using ye by auto
  next
    case False
    then have "year nxt = year cur" and "month nxt = month cur + 1"
      using nx by (auto simp: add_one_month_def mk_date_def Let_def split: if_splits)
    then show ?thesis using False by auto
  qed
qed

declare month_loop.simps [simp del]

definition first_of_month :: "date \<Rightarrow> date" where
  "first_of_month s = mk_date (year s) (month s) 1"

definition month_windows :: "date \<Rightarrow> date \<Rightarrow> error + (date \<times> date) list" where
  "month_windows s e = month_loop (first_of_month s) e []"

definition iso_pair :: "date \<times> date \<Rightarrow> string \<times> string" where
  "iso_pair w = (isoformat (fst w), isoformat (snd w))"

text \<open>
  \<open>month_ranges\<close>: both texts are parsed first. A start that is \<open>NaT\<close> has no integer year
  for \<open>date(s.year, s.month, 1)\<close>, and an end that is \<open>NaT\<close> cannot be compared with a date:
  either raises TypeError.
\<close>

definition month_ranges :: "date_parser \<Rightarrow> string \<Rightarrow> string \<Rightarrow> error + (string \<times> string) list" where
  "month_ranges to_datetime start_date_str end_date_str =
     (case to_datetime start_date_str of
        Inl err \<Rightarrow> Inl err
      | Inr s_opt \<Rightarrow>
          (case to_datetime end_date_str of
             Inl err \<Rightarrow> Inl err
           | Inr e_opt \<Rightarrow>
               (case (s_opt, e_opt) of
                  (Some s, Some e) \<Rightarrow>
                    (case month_windows s e of
                       Inl err \<Rightarrow> Inl err
                     | Inr out \<Rightarrow> Inr (map iso_pair out))
                | _ \<Rightarrow> Inl TypeError)))"

subsection \<open>The windows partition the range\<close>

definition last_of_month :: "date \<Rightarrow> date" where
  "last_of_month d = mk_date (year d) (month d) (days_in_month (year d) (month d))"

definition succ_month :: "date \<Rightarrow> date" where
  "succ_month d = (if month d = 12 then mk_date (year d + 1) 1 1 else mk_date (year d) (month d + 1) 1)"

definition in_window :: "date \<Rightarrow> date \<times> date \<Rightarrow> bool" where
  "in_window d w = (date_le (fst w) d \<and> date_le d (snd w))"

lemma mk_date_sel [simp]: "year (mk_date y m d) = y" "month (mk_date y m d) = m" "day (mk_date y m d) = d"
  by (simp_all add: mk_date_def)

lemma days_in_month_pos: "1 \<le> days_in_month y m"
  by (simp add: days_in_month_def)

lemma add_one_month_first:
  assumes "day cur = 1" "month cur \<le> 12"
  shows "add_one_month cur = (if year (succ_month cur) > 9999 then Inl ValueError else Inr (succ_month cur))"
proof -
  have m: "min (days_in_month y m) (Suc 0) = Suc 0" for y m
    using days_in_month_pos [of y m] by (simp add: min_def)
  show ?thesis
    using assms by (simp add: add_one_month_def succ_month_def Let_def m)
qed

lemma minus_one_day_succ:
  assumes "1 \<le> year cur" "1 \<le> month cur" "month cur \<le> 12"
  shows "minus_one_day (succ_month cur) = Inr (last_of_month cur)"
  using assms by (simp add: minus_one_day_def succ_month_def last_of_month_def days_in_month_def)

lemma next_day_last:
  assumes "month cur \<le> 12"
  shows "next_day (last_of_month cur) = succ_month cur"
  using assms by (simp add: next_day_def succ_month_def last_of_month_def)

lemma succ_month_props:
  assumes "1 \<le> month cur" "month cur \<le> 12"
  shows "day (succ_month cur) = 1" "1 \<le> month (succ_month cur)" "month (succ_month cur) \<le> 12"
  using assms by (simp_all add: succ_month_def)

lemma month_loop_stop: "\<not> date_le cur e \<Longrightarrow> month_loop cur e out = Inr out"
  by (simp add: month_loop.simps [of cur e])

lemma month_loop_step:
  assumes "date_le cur e" "day cur = 1" "1 \<le> year cur" "1 \<le> month cur" "month cur \<le> 12"
  shows "month_loop cur e out =
     (if year (succ_month cur) > 9999 then Inl ValueError
      else month_loop (succ_month cur) e (out @ [(cur, date_min (last_of_month cur) e)]))"
  using assms
  by (simp add: month_loop.simps [of cur e out] add_one_month_first minus_one_day_succ)

lemma succ_month_year: "year cur \<le> year (succ_month cur)"
  by (simp add: succ_month_def)

text \<open>A chain of windows: each is non-empty and the next begins the day after it ends.\<close>

fun chain :: "(date \<times> date) list \<Rightarrow> bool" where
  "chain [] = True"
| "chain [w] = date_le (fst w) (snd w)"
| "chain (w # v # ws) = (date_le (fst w) (snd w) \<and> fst v = next_day (snd w) \<and> chain (v # ws))"

lemma date_le_refl: "date_le a a"
  by (simp add: date_le_def)

lemma date_le_trans: "date_le a b \<Longrightarrow> date_le b c \<Longrightarrow> date_le a c"
  by (auto simp: date_le_def)

lemma date_lt_le_trans: "date_lt a b \<Longrightarrow> date_le b c \<Longrightarrow> date_lt a c"
  by (auto simp: date_le_def date_lt_def)

lemma date_le_lt_trans: "date_le a b \<Longrightarrow> date_lt b c \<Longrightarrow> date_lt a c"
  by (auto simp: date_le_def date_lt_def)

lemma not_date_lt: "(\<not> date_lt a b) = date_le b a"
  by (auto simp: date_le_def date_lt_def)

lemma cur_le_last: "day cur = 1 \<Longrightarrow> date_le cur (last_of_month cur)"
  using days_in_month_pos [of "year cur" "month cur"] by (simp add: date_le_def last_of_month_def)

lemma last_lt_succ: "month cur \<le> 12 \<Longrightarrow> date_lt (last_of_month cur) (succ_month cur)"
  by (simp add: date_lt_def last_of_month_def succ_month_def)

lemma cur_lt_succ: "month cur \<le> 12 \<Longrightarrow> date_lt cur (succ_month cur)"
  by (simp add: date_lt_def succ_month_def)

text \<open>A valid day lies in the month of \<open>cur\<close> or before, or in a later month.\<close>

lemma split_at_month:
  assumes "valid_date d" "month cur \<le> 12"
  shows "date_le d (last_of_month cur) \<or> date_le (succ_month cur) d"
proof (cases "year d < year cur \<or> (year d = year cur \<and> month d \<le> month cur)")
  case True
  then have "date_le d (last_of_month cur)"
    using assms by (auto simp: valid_date_def date_le_def last_of_month_def)
  then show ?thesis ..
next
  case False
  then have "year cur < year d \<or> (year d = year cur \<and> month cur < month d)"
    by linarith
  then have "date_le (succ_month cur) d"
    using assms by (auto simp: valid_date_def date_le_def succ_month_def)
  then show ?thesis ..
qed

lemma date_lt_trans: "date_lt a b \<Longrightarrow> date_lt b c \<Longrightarrow> date_lt a c"
  by (auto simp: date_lt_def)

lemma date_lt_not_le: "date_lt a b \<Longrightarrow> \<not> date_le b a"
  by (auto simp: date_le_def date_lt_def)

lemma date_lt_imp_le: "date_lt a b \<Longrightarrow> date_le a b"
  by (auto simp: date_le_def date_lt_def)

definition covers :: "date \<Rightarrow> date \<Rightarrow> (date \<times> date) list \<Rightarrow> bool" where
  "covers cur e new =
     (chain new \<and> (new = [] \<longleftrightarrow> \<not> date_le cur e) \<and> (new \<noteq> [] \<longrightarrow> fst (hd new) = cur) \<and>
      (\<forall>d. valid_date d \<longrightarrow> ((\<exists>w\<in>set new. in_window d w) \<longleftrightarrow> date_le cur d \<and> date_le d e)))"

lemma covers_Nil: "\<not> date_le cur e \<Longrightarrow> covers cur e []"
  using date_le_trans [of cur _ e] by (auto simp: covers_def)

lemma covers_single: "date_le cur e \<Longrightarrow> covers cur e [(cur, e)]"
  by (simp add: covers_def in_window_def)

lemma covers_Cons:
  assumes c: "covers nxt e new" and cl: "date_le cur ld" and nd: "next_day ld = nxt"
    and cn: "date_lt cur nxt" and lde: "date_le ld e"
    and sp: "\<And>d. valid_date d \<Longrightarrow> date_le d ld \<or> date_le nxt d"
  shows "covers cur e ((cur, ld) # new)"
proof -
  have ch: "chain ((cur, ld) # new)"
    using c cl nd by (cases new) (simp_all add: covers_def)
  have le: "date_le cur e"
    using cl lde by (rule date_le_trans)
  have cov: "(\<exists>w\<in>set ((cur, ld) # new). in_window d w) \<longleftrightarrow> date_le cur d \<and> date_le d e"
    if v: "valid_date d" for d
  proof -
    have a: "(\<exists>w\<in>set new. in_window d w) \<longleftrightarrow> date_le nxt d \<and> date_le d e"
      using c v by (simp add: covers_def)
    have b: "date_le nxt d \<Longrightarrow> date_le cur d"
      using cn date_lt_le_trans date_lt_imp_le by blast
    have t: "date_le d ld \<Longrightarrow> date_le d e"
      using lde date_le_trans by blast
    have "(\<exists>w\<in>set ((cur, ld) # new). in_window d w) \<longleftrightarrow>
          (date_le cur d \<and> date_le d ld) \<or> (date_le nxt d \<and> date_le d e)"
      using a by (simp add: in_window_def)
    also have "\<dots> \<longleftrightarrow> date_le cur d \<and> date_le d e"
      using b t sp [OF v] by blast
    finally show ?thesis .
  qed
  show ?thesis
    unfolding covers_def
  proof (intro conjI allI impI)
    show "chain ((cur, ld) # new)" by (rule ch)
    show "((cur, ld) # new = []) = (\<not> date_le cur e)" using le by simp
    show "fst (hd ((cur, ld) # new)) = cur" by simp
    show "(\<exists>w\<in>set ((cur, ld) # new). in_window d w) = (date_le cur d \<and> date_le d e)"
      if "valid_date d" for d using cov [OF that] .
  qed
qed

lemma month_loop_covers:
  "month_loop cur e out = Inr ws \<Longrightarrow> day cur = 1 \<Longrightarrow> 1 \<le> year cur \<Longrightarrow> 1 \<le> month cur
     \<Longrightarrow> month cur \<le> 12 \<Longrightarrow> \<exists>new. ws = out @ new \<and> covers cur e new"
proof (induction cur e out arbitrary: ws rule: month_loop.induct)
  case (1 cur e out)
  show ?case
  proof (cases "date_le cur e")
    case False
    then have "ws = out" using "1.prems"(1) by (simp add: month_loop_stop)
    then show ?thesis using covers_Nil [OF False] by simp
  next
    case le: True
    let ?nxt = "succ_month cur" and ?ld = "last_of_month cur"
    let ?w = "(cur, date_min ?ld e)"
    have st: "month_loop cur e out =
        (if year ?nxt > 9999 then Inl ValueError else month_loop ?nxt e (out @ [?w]))"
      using le "1.prems"(2-5) by (rule month_loop_step)
    have y: "\<not> 9999 < year ?nxt"
      using st "1.prems"(1) by (auto split: if_splits)
    have rec: "month_loop ?nxt e (out @ [?w]) = Inr ws"
      using st y "1.prems"(1) by simp
    have nx: "add_one_month cur = Inr ?nxt"
      using y "1.prems"(2,5) by (simp add: add_one_month_first)
    have ld: "minus_one_day ?nxt = Inr ?ld"
      using "1.prems"(3-5) by (rule minus_one_day_succ)
    have y1: "1 \<le> year ?nxt"
      using "1.prems"(3) succ_month_year [of cur] by linarith
    have sp: "day ?nxt = 1" "1 \<le> month ?nxt" "month ?nxt \<le> 12"
      using "1.prems"(4,5) by (simp_all add: succ_month_def)
    from "1.IH" [OF le nx ld rec sp(1) y1 sp(2,3)]
    obtain new where new: "ws = (out @ [?w]) @ new" "covers ?nxt e new"
      by blast
    have cl: "date_le cur ?ld" using "1.prems"(2) by (rule cur_le_last)
    have ls: "date_lt ?ld ?nxt" using "1.prems"(5) by (rule last_lt_succ)
    have nd: "next_day ?ld = ?nxt" using "1.prems"(5) by (rule next_day_last)
    have cn: "date_lt cur ?nxt" using "1.prems"(5) by (rule cur_lt_succ)
    show ?thesis
    proof (cases "date_lt e ?ld")
      case True
      then have w: "?w = (cur, e)" by (simp add: date_min_def)
      have "date_lt e ?nxt" using True ls by (rule date_lt_trans)
      then have "\<not> date_le ?nxt e" by (rule date_lt_not_le)
      then have e: "new = []" using new(2) by (simp add: covers_def)
      have "ws = out @ [(cur, e)]" using new(1) e w by simp
      then show ?thesis using covers_single [OF le] by blast
    next
      case False
      then have w: "?w = (cur, ?ld)" by (simp add: date_min_def)
      have lde: "date_le ?ld e" using False by (simp add: not_date_lt)
      have c: "covers cur e ((cur, ?ld) # new)"
        using new(2) cl nd cn lde
      proof (rule covers_Cons)
        show "date_le d ?ld \<or> date_le ?nxt d" if "valid_date d" for d
          using that "1.prems"(5) by (rule split_at_month)
      qed
      have "ws = out @ ((cur, ?ld) # new)" using new(1) w by simp
      then show ?thesis using c by blast
    qed
  qed
qed


lemma next_day_gt: "date_lt d (next_day d)"
  by (simp add: next_day_def date_lt_def)

lemma chain_tail: "chain (w # ws) \<Longrightarrow> chain ws"
  by (cases ws) simp_all

lemma chain_nonempty: "chain ws \<Longrightarrow> w \<in> set ws \<Longrightarrow> date_le (fst w) (snd w)"
  by (induction ws rule: chain.induct) auto

lemma chain_after: "chain (w # ws) \<Longrightarrow> v \<in> set ws \<Longrightarrow> date_lt (snd w) (fst v)"
proof (induction ws arbitrary: w)
  case Nil
  then show ?case by simp
next
  case (Cons u us)
  have a: "date_lt (snd w) (fst u)"
    using Cons.prems(1) next_day_gt [of "snd w"] by simp
  show ?case
  proof (cases "v = u")
    case True
    then show ?thesis using a by simp
  next
    case False
    then have "v \<in> set us" using Cons.prems(2) by simp
    moreover have "chain (u # us)" using Cons.prems(1) by simp
    ultimately have "date_lt (snd u) (fst v)" by (rule Cons.IH [rotated])
    moreover have "date_le (fst u) (snd u)"
      using \<open>chain (u # us)\<close> by (rule chain_nonempty) simp
    ultimately show ?thesis
      using a date_lt_le_trans date_lt_trans by blast
  qed
qed

lemma chain_adjacent: "chain ws \<Longrightarrow> Suc i < length ws \<Longrightarrow> fst (ws ! Suc i) = next_day (snd (ws ! i))"
proof (induction ws arbitrary: i)
  case Nil
  then show ?case by simp
next
  case (Cons w ws)
  show ?case
  proof (cases i)
    case 0
    then show ?thesis using Cons.prems by (cases ws) simp_all
  next
    case (Suc k)
    then show ?thesis using Cons.IH [of k] Cons.prems chain_tail [of w ws] by simp
  qed
qed

lemma chain_disjoint:
  "chain ws \<Longrightarrow> i < j \<Longrightarrow> j < length ws \<Longrightarrow> date_lt (snd (ws ! i)) (fst (ws ! j))"
proof (induction ws arbitrary: i j)
  case Nil
  then show ?case by simp
next
  case (Cons w ws)
  obtain k where j: "j = Suc k" using Cons.prems(2) by (cases j) simp_all
  show ?case
  proof (cases i)
    case 0
    have "ws ! k \<in> set ws" using Cons.prems(3) j by simp
    then show ?thesis using chain_after [OF Cons.prems(1)] 0 j by simp
  next
    case (Suc l)
    then show ?thesis using Cons.IH [of l k] Cons.prems j chain_tail [of w ws] by simp
  qed
qed

lemma date_le_antisym: "date_le a b \<Longrightarrow> date_le b a \<Longrightarrow> a = (b :: date)"
  by (cases a, cases b) (auto simp: date_le_def)

lemma last_of_month_valid: "valid_date cur \<Longrightarrow> valid_date (last_of_month cur)"
  using days_in_month_pos [of "year cur" "month cur"] by (simp add: valid_date_def last_of_month_def)

lemma succ_month_valid: "valid_date cur \<Longrightarrow> year (succ_month cur) \<le> 9999 \<Longrightarrow> valid_date (succ_month cur)"
  using days_in_month_pos [of "year (succ_month cur)" "month (succ_month cur)"]
  by (simp add: valid_date_def succ_month_def split: if_splits)

lemma date_min_valid: "valid_date a \<Longrightarrow> valid_date b \<Longrightarrow> valid_date (date_min a b)"
  by (simp add: date_min_def)

text \<open>
  The end points of every window are calendar days, and the last window ends on the end
  date.
\<close>

lemma month_loop_ends:
  "month_loop cur e out = Inr ws \<Longrightarrow> day cur = 1 \<Longrightarrow> valid_date cur \<Longrightarrow> valid_date e
     \<Longrightarrow> \<exists>new. ws = out @ new \<and> (\<forall>w\<in>set new. valid_date (fst w) \<and> valid_date (snd w)) \<and>
           (new \<noteq> [] \<longrightarrow> snd (last new) = e)"
proof (induction cur e out arbitrary: ws rule: month_loop.induct)
  case (1 cur e out)
  have b: "1 \<le> year cur" "1 \<le> month cur" "month cur \<le> 12"
    using "1.prems"(3) by (simp_all add: valid_date_def)
  show ?case
  proof (cases "date_le cur e")
    case False
    then have "ws = out" using "1.prems"(1) by (simp add: month_loop_stop)
    then show ?thesis by simp
  next
    case le: True
    let ?nxt = "succ_month cur" and ?ld = "last_of_month cur"
    let ?w = "(cur, date_min ?ld e)"
    have st: "month_loop cur e out =
        (if year ?nxt > 9999 then Inl ValueError else month_loop ?nxt e (out @ [?w]))"
      using le "1.prems"(2) b by (rule month_loop_step)
    have y: "\<not> 9999 < year ?nxt"
      using st "1.prems"(1) by (auto split: if_splits)
    have rec: "month_loop ?nxt e (out @ [?w]) = Inr ws"
      using st y "1.prems"(1) by simp
    have nx: "add_one_month cur = Inr ?nxt"
      using y "1.prems"(2) b(3) by (simp add: add_one_month_first)
    have ld: "minus_one_day ?nxt = Inr ?ld"
      using b by (rule minus_one_day_succ)
    have vn: "valid_date ?nxt"
      using "1.prems"(3) y by (intro succ_month_valid) simp_all
    have dn: "day ?nxt = 1" by (simp add: succ_month_def)
    from "1.IH" [OF le nx ld rec dn vn "1.prems"(4)]
    obtain new where new: "ws = (out @ [?w]) @ new"
      "\<forall>w\<in>set new. valid_date (fst w) \<and> valid_date (snd w)" "new \<noteq> [] \<longrightarrow> snd (last new) = e"
      by blast
    have vw: "valid_date (fst ?w) \<and> valid_date (snd ?w)"
      using "1.prems"(3,4) by (simp add: date_min_valid last_of_month_valid)
    have lst: "snd ?w = e" if "new = []"
    proof -
      have y1: "1 \<le> year ?nxt" using vn by (simp add: valid_date_def)
      have m1: "1 \<le> month ?nxt" "month ?nxt \<le> 12" using vn by (simp_all add: valid_date_def)
      from month_loop_covers [OF rec dn y1 m1]
      obtain new' where n': "ws = (out @ [?w]) @ new'" "covers ?nxt e new'" by blast
      have "new' = []" using n'(1) new(1) that by simp
      then have "\<not> date_le ?nxt e" using n'(2) by (simp add: covers_def)
      moreover have "date_le e ?ld \<or> date_le ?nxt e"
        using "1.prems"(4) b(3) by (rule split_at_month)
      ultimately have el: "date_le e ?ld" by simp
      show ?thesis
      proof (cases "date_lt e ?ld")
        case True
        then show ?thesis by (simp add: date_min_def)
      next
        case False
        then have "date_le ?ld e" by (simp add: not_date_lt)
        then have "?ld = e" using el by (rule date_le_antisym)
        then show ?thesis by (simp add: date_min_def)
      qed
    qed
    have "ws = out @ (?w # new)" using new(1) by simp
    moreover have "\<forall>w\<in>set (?w # new). valid_date (fst w) \<and> valid_date (snd w)"
      using vw new(2) by simp
    moreover have "?w # new \<noteq> [] \<longrightarrow> snd (last (?w # new)) = e"
      using lst new(3) by (cases "new = []") simp_all
    ultimately show ?thesis by blast
  qed
qed

lemma iso_parser_valid: "\<forall>t d. iso_parser t = Inr (Some d) \<longrightarrow> valid_date d"
  by (auto simp: iso_parser_def iso_day_def split: if_splits option.splits)

text \<open>
  Claim C1 (as amended). Whatever the date parser reads, as long as it yields calendar
  days: whenever \<open>month_ranges\<close> accepts its two dates, the windows it returns are the text
  of date windows whose end points are calendar days, that are each non-empty, contiguous
  (each begins the day after the previous one ends) and pairwise non-overlapping; the
  first window begins on the 1st of the start date's month (not on the requested start
  day), the last one ends on the end date, and their union is exactly the days from the
  first day of the start date's month to the end date. No window is returned exactly when
  the end date lies before that first day.
\<close>

theorem month_ranges_partition:
  assumes "month_ranges to_datetime start_date_str end_date_str = Inr ws"
    and "\<forall>t d. to_datetime t = Inr (Some d) \<longrightarrow> valid_date d"
  shows "\<exists>s e dws. to_datetime start_date_str = Inr (Some s) \<and>
           to_datetime end_date_str = Inr (Some e) \<and>
           ws = map iso_pair dws \<and>
           (\<forall>w\<in>set dws. valid_date (fst w) \<and> valid_date (snd w) \<and> date_le (fst w) (snd w)) \<and>
           (dws = [] \<longleftrightarrow> date_lt e (first_of_month s)) \<and>
           (dws \<noteq> [] \<longrightarrow> fst (hd dws) = first_of_month s \<and> snd (last dws) = e) \<and>
           (\<forall>i. Suc i < length dws \<longrightarrow> fst (dws ! Suc i) = next_day (snd (dws ! i))) \<and>
           (\<forall>i j. i < j \<and> j < length dws \<longrightarrow> date_lt (snd (dws ! i)) (fst (dws ! j))) \<and>
           (\<forall>d. valid_date d \<longrightarrow>
              ((\<exists>w\<in>set dws. in_window d w) \<longleftrightarrow> date_le (first_of_month s) d \<and> date_le d e))"
proof -
  from assms(1) obtain s e dws where s: "to_datetime start_date_str = Inr (Some s)"
    and e: "to_datetime end_date_str = Inr (Some e)" and d: "month_windows s e = Inr dws"
    and ws: "ws = map iso_pair dws"
    by (auto simp: month_ranges_def split: sum.splits option.splits)
  have v: "valid_date s" using s assms(2) by blast
  have ve: "valid_date e" using e assms(2) by blast
  have vf: "valid_date (first_of_month s)"
    using v days_in_month_pos [of "year s" "month s"] by (simp add: valid_date_def first_of_month_def)
  have "\<exists>new. dws = [] @ new \<and> covers (first_of_month s) e new"
    using d v unfolding month_windows_def
    by (intro month_loop_covers) (simp_all add: first_of_month_def valid_date_def)
  then have c: "covers (first_of_month s) e dws" by simp
  then have ch: "chain dws" by (simp add: covers_def)
  have "\<exists>new. dws = [] @ new \<and> (\<forall>w\<in>set new. valid_date (fst w) \<and> valid_date (snd w)) \<and>
          (new \<noteq> [] \<longrightarrow> snd (last new) = e)"
    using d vf ve unfolding month_windows_def
    by (intro month_loop_ends) (simp_all add: first_of_month_def)
  then have en: "\<forall>w\<in>set dws. valid_date (fst w) \<and> valid_date (snd w)"
    "dws \<noteq> [] \<longrightarrow> snd (last dws) = e" by simp_all
  have "\<forall>w\<in>set dws. valid_date (fst w) \<and> valid_date (snd w) \<and> date_le (fst w) (snd w)"
    using ch chain_nonempty en(1) by blast
  moreover have "dws = [] \<longleftrightarrow> date_lt e (first_of_month s)"
    using c by (simp add: covers_def not_date_lt [symmetric])
  moreover have "dws \<noteq> [] \<longrightarrow> fst (hd dws) = first_of_month s \<and> snd (last dws) = e"
    using c en(2) by (simp add: covers_def)
  moreover have "\<forall>i. Suc i < length dws \<longrightarrow> fst (dws ! Suc i) = next_day (snd (dws ! i))"
    using ch chain_adjacent by blast
  moreover have "\<forall>i j. i < j \<and> j < length dws \<longrightarrow> date_lt (snd (dws ! i)) (fst (dws ! j))"
    using ch chain_disjoint by blast
  moreover have "\<forall>d. valid_date d \<longrightarrow>
      ((\<exists>w\<in>set dws. in_window d w) \<longleftrightarrow> date_le (first_of_month s) d \<and> date_le d e)"
    using c by (simp add: covers_def)
  ultimately show ?thesis using s e ws by blast
qed

lemma month_ranges_example:
  "month_ranges iso_parser ''2023-03-15'' ''2023-04-30'' =
     Inr [(''2023-03-01'', ''2023-03-31''), (''2023-04-01'', ''2023-04-30'')]"
  by code_simp

theorem month_ranges_partition_witness:
  "month_ranges iso_parser ''2023-03-15'' ''2023-04-30'' =
     Inr [(''2023-03-01'', ''2023-03-31''), (''2023-04-01'', ''2023-04-30'')] \<and>
   (\<exists>s e dws. iso_parser ''2023-03-15'' = Inr (Some s) \<and> iso_parser ''2023-04-30'' = Inr (Some e) \<and>
      [(''2023-03-01'', ''2023-03-31''), (''2023-04-01'', ''2023-04-30'')] = map iso_pair dws \<and>
      (\<forall>w\<in>set dws. valid_date (fst w) \<and> valid_date (snd w) \<and> date_le (fst w) (snd w)) \<and>
      (dws = [] \<longleftrightarrow> date_lt e (first_of_month s)) \<and>
      (dws \<noteq> [] \<longrightarrow> fst (hd dws) = first_of_month s \<and> snd (last dws) = e) \<and>
      (\<forall>i. Suc i < length dws \<longrightarrow> fst (dws ! Suc i) = next_day (snd (dws ! i))) \<and>
      (\<forall>i j. i < j \<and> j < length dws \<longrightarrow> date_lt (snd (dws ! i)) (fst (dws ! j))) \<and>
      (\<forall>d. valid_date d \<longrightarrow>
         ((\<exists>w\<in>set dws. in_window d w) \<longleftrightarrow> date_le (first_of_month s) d \<and> date_le d e)))"
  using month_ranges_example month_ranges_partition [OF month_ranges_example iso_parser_valid]
  by (rule conjI)

text \<open>
  The claim as stated fails: for 2023-03-15..2023-04-30 the first window begins on
  2023-03-01, so the day 2023-03-01 lies in a window and before the requested start.
\<close>

theorem month_ranges_start_counterexample:
  "month_ranges iso_parser ''2023-03-15'' ''2023-04-30'' =
     Inr [(''2023-03-01'', ''2023-03-31''), (''2023-04-01'', ''2023-04-30'')] \<and>
   iso_parser ''2023-03-15'' = Inr (Some (mk_date 2023 3 15)) \<and>
   iso_parser ''2023-04-30'' = Inr (Some (mk_date 2023 4 30)) \<and>
   month_windows (mk_date 2023 3 15) (mk_date 2023 4 30) =
     Inr [(mk_date 2023 3 1, mk_date 2023 3 31), (mk_date 2023 4 1, mk_date 2023 4 30)] \<and>
   in_window (mk_date 2023 3 1) (mk_date 2023 3 1, mk_date 2023 3 31) \<and>
   \<not> date_le (mk_date 2023 3 15) (mk_date 2023 3 1)"
  by code_simp


section \<open>Python values\<close>

text \<open>
  The values a JSON document holds, as Python sees them after \<open>json.load\<close>: \<open>None\<close>,
  booleans, integers, floats (by their value), strings, lists and dictionaries with string
  keys. A dictionary is an association list; \<open>d.get(k)\<close> is \<open>map_of d k\<close>.
\<close>

datatype pyval =
    PNone
  | PBool bool
  | PInt int
  | PFloat rat
  | PStr string
  | PList "pyval list"
  | PDict "(string \<times> pyval) list"

type_synonym pydict = "(string \<times> pyval) list"

text \<open>\<open>bool(v)\<close>: what an \<open>if v\<close> tests.\<close>

fun py_truthy :: "pyval \<Rightarrow> bool" where
  "py_truthy PNone = False"
| "py_truthy (PBool b) = b"
| "py_truthy (PInt i) = (i \<noteq> 0)"
| "py_truthy (PFloat r) = (r \<noteq> 0)"
| "py_truthy (PStr s) = (s \<noteq> [])"
| "py_truthy (PList xs) = (xs \<noteq> [])"
| "py_truthy (PDict kvs) = (kvs \<noteq> [])"

text \<open>\<open>str(i)\<close> of an integer: its decimal digits, with a minus sign when negative.\<close>

definition str_int :: "int \<Rightarrow> string" where
  "str_int i = (if i < 0 then ''-'' @ str_nat (nat (- i)) else str_nat (nat i))"

text \<open>
  \<open>str(v)\<close>, which is also what an f-string puts for \<open>{v}\<close>. The text Python prints for a
  float, a list or a dictionary is fixed by the interpreter (shortest round-trip digits,
  quoting of nested strings); the model takes it as the parameter \<open>other\<close> and never
  looks into it.
\<close>

type_synonym renderer = "pyval \<Rightarrow> string"

fun py_str :: "renderer \<Rightarrow> pyval \<Rightarrow> string" where
  "py_str other PNone = ''None''"
| "py_str other (PBool b) = (if b then ''True'' else ''False'')"
| "py_str other (PInt i) = str_int i"
| "py_str other (PStr s) = s"
| "py_str other v = other v"

text \<open>\<open>sep.join(xs)\<close> on a list of strings.\<close>

fun py_join :: "string \<Rightarrow> string list \<Rightarrow> string" where
  "py_join sep [] = []"
| "py_join sep [x] = x"
| "py_join sep (x # y # ys) = x @ sep @ py_join sep (y # ys)"

text \<open>
  \<open>for x in v\<close>: a list gives its items, a string its characters, a dictionary its keys;
  anything else is not iterable.
\<close>

fun py_iter :: "pyval \<Rightarrow> error + pyval list" where
  "py_iter (PList xs) = Inr xs"
| "py_iter (PStr s) = Inr (map (\<lambda>c. PStr [c]) s)"
| "py_iter (PDict kvs) = Inr (map (\<lambda>kv. PStr (fst kv)) kvs)"
| "py_iter v = Inl TypeError"

text \<open>Lists and dictionaries cannot be hashed: using one as a dictionary key raises TypeError.\<close>

fun py_hashable :: "pyval \<Rightarrow> bool" where
  "py_hashable (PList xs) = False"
| "py_hashable (PDict kvs) = False"
| "py_hashable v = True"

text \<open>
  The integer a value equals as a dictionary key, if any: an \<open>int\<close>, a \<open>bool\<close>
  (\<open>True == 1\<close>), or a float with an integral value (\<open>28.0 == 28\<close>).
\<close>

fun py_int_key :: "pyval \<Rightarrow> int option" where
  "py_int_key (PInt i) = Some i"
| "py_int_key (PBool b) = Some (if b then 1 else 0)"
| "py_int_key (PFloat r) = (if r = of_int (floor r) then Some (floor r) else None)"
| "py_int_key v = None"

section \<open>Normalizer\<close>

definition COLS :: "string list" where
  "COLS = [''tmdb_id'', ''title'', ''original_title'', ''release_date'', ''genres'',
           ''vote_average'', ''vote_count'', ''popularity'', ''original_language'',
           ''overview'', ''poster_url'']"

text \<open>\<open>Dict[int, str]\<close>: genre code to display name.\<close>

type_synonym genre_map = "(int \<times> string) list"

text \<open>\<open>genres_map.get(gid, str(gid))\<close>.\<close>

definition genre_name :: "renderer \<Rightarrow> genre_map \<Rightarrow> pyval \<Rightarrow> error + string" where
  "genre_name other genres_map gid =
     (if \<not> py_hashable gid then Inl TypeError
      else Inr (case py_int_key gid of
                  None \<Rightarrow> py_str other gid
                | Some k \<Rightarrow> (case map_of genres_map k of
                               None \<Rightarrow> py_str other gid
                             | Some name \<Rightarrow> name)))"

text \<open>The list comprehension over the genre codes; the first failure ends it.\<close>

fun genre_names :: "renderer \<Rightarrow> genre_map \<Rightarrow> pyval list \<Rightarrow> error + string list" where
  "genre_names other genres_map [] = Inr []"
| "genre_names other genres_map (gid # gids) =
     (case genre_name other genres_map gid of
        Inl err \<Rightarrow> Inl err
      | Inr name \<Rightarrow>
          (case genre_names other genres_map gids of
             Inl err \<Rightarrow> Inl err
           | Inr names \<Rightarrow> Inr (name # names)))"

text \<open>\<open>m.get(k)\<close>: the value, or \<open>None\<close> when the key is missing.\<close>

definition dict_get :: "pydict \<Rightarrow> string \<Rightarrow> pyval" where
  "dict_get m k = (case map_of m k of None \<Rightarrow> PNone | Some v \<Rightarrow> v)"

text \<open>\<open>m.get(k, default)\<close>.\<close>

definition dict_get_default :: "pydict \<Rightarrow> string \<Rightarrow> pyval \<Rightarrow> pyval" where
  "dict_get_default m k dflt = (case map_of m k of None \<Rightarrow> dflt | Some v \<Rightarrow> v)"

text \<open>
  The body of the loop of \<open>normalize_to_df\<close>: the row for one raw record, as the
  dictionary literal lists it.
\<close>

definition normalize_row :: "renderer \<Rightarrow> string \<Rightarrow> string \<Rightarrow> genre_map \<Rightarrow> pydict \<Rightarrow> error + pydict" where
  "normalize_row other image_base poster_size genres_map m =
     (case py_iter (dict_get_default m ''genre_ids'' (PList [])) of
        Inl err \<Rightarrow> Inl err
      | Inr gids \<Rightarrow>
          (case genre_names other genres_map gids of
             Inl err \<Rightarrow> Inl err
           | Inr names \<Rightarrow>
               (let poster_path = dict_get m ''poster_path'';
                    poster_url = (if py_truthy poster_path
                                  then PStr (image_base @ poster_size @ py_str other poster_path)
                                  else PNone)
                in Inr [(''tmdb_id'', dict_get m ''id''),
                        (''title'', dict_get m ''title''),
                        (''original_title'', dict_get m ''original_title''),
                        (''release_date'', dict_get m ''release_date''),
                        (''genres'', PStr (py_join ''|'' names)),
                        (''vote_average'', dict_get m ''vote_average''),
                        (''vote_count'', dict_get m ''vote_count''),
                        (''popularity'', dict_get m ''popularity''),
                        (''original_language'', dict_get m ''original_language''),
                        (''overview'', dict_get m ''overview''),
                        (''poster_url'', poster_url)])))"

fun normalize_rows :: "renderer \<Rightarrow> string \<Rightarrow> string \<Rightarrow> genre_map \<Rightarrow> pydict list \<Rightarrow> error + pydict list" where
  "normalize_rows other image_base poster_size genres_map [] = Inr []"
| "normalize_rows other image_base poster_size genres_map (m # ms) =
     (case normalize_row other image_base poster_size genres_map m of
        Inl err \<Rightarrow> Inl err
      | Inr row \<Rightarrow>
          (case normalize_rows other image_base poster_size genres_map ms of
             Inl err \<Rightarrow> Inl err
           | Inr rs \<Rightarrow> Inr (row # rs)))"

subsection \<open>Tables\<close>

text \<open>
  A pandas DataFrame, as far as the pipeline uses one: the column names in order, and
  the rows, each a list of cells aligned with the columns. A cell holds the value the
  row gave for it. The null of pandas is \<open>PNone\<close>, whether pandas stores it as None (in a
  column of strings) or as NaN (in a column of numbers). Pandas afterwards picks one
  storage type per column, so that an integer next to a null in its column is stored as
  a float; the table here keeps the values as given, and nothing below depends on how a
  number is stored.
\<close>

record dataframe =
  columns :: "string list"
  rows :: "pyval list list"

text \<open>The cell of row \<open>i\<close> under the column \<open>c\<close>.\<close>

definition cell :: "dataframe \<Rightarrow> nat \<Rightarrow> string \<Rightarrow> pyval option" where
  "cell df i c = map_of (zip (columns df) (rows df ! i)) c"

text \<open>
  \<open>pd.DataFrame(rows)\<close> on a list of dictionaries: the columns are the keys in the order
  they first appear, and a row has \<open>PNone\<close> where its dictionary lacks a key.
\<close>

definition union_keys :: "pydict list \<Rightarrow> string list" where
  "union_keys ds = fold (\<lambda>k acc. if k \<in> set acc then acc else acc @ [k]) (concat (map (map fst) ds)) []"

definition pd_DataFrame :: "pydict list \<Rightarrow> dataframe" where
  "pd_DataFrame ds = \<lparr>columns = union_keys ds, rows = map (\<lambda>d. map (dict_get d) (union_keys ds)) ds\<rparr>"

text \<open>\<open>df.reindex(columns=cols)\<close>: the named columns in the given order, empty where \<open>df\<close> has none.\<close>

definition reindex :: "string list \<Rightarrow> dataframe \<Rightarrow> dataframe" where
  "reindex cols df =
     \<lparr>columns = cols,
      rows = map (\<lambda>r. map (\<lambda>c. case map_of (zip (columns df) r) c of None \<Rightarrow> PNone | Some v \<Rightarrow> v) cols)
               (rows df)\<rparr>"

definition normalize_to_df :: "renderer \<Rightarrow> pydict list \<Rightarrow> string \<Rightarrow> string \<Rightarrow> genre_map \<Rightarrow> error + dataframe" where
  "normalize_to_df other raw_movies image_base poster_size genres_map =
     (case normalize_rows other image_base poster_size genres_map raw_movies of
        Inl err \<Rightarrow> Inl err
      | Inr rs \<Rightarrow> Inr (reindex COLS (pd_DataFrame rs)))"

section \<open>Master output paths\<close>

text \<open>
  \<open>start[:4]\<close> is \<open>take 4 start\<close>. A path is the text it was built from.
\<close>

definition master_paths :: "string \<Rightarrow> string \<Rightarrow> string \<times> string" where
  "master_paths start end_date =
     (let year_from = take 4 start; year_to = take 4 end_date;
          suffix = (if year_from = year_to then year_from else year_from @ ''-'' @ year_to)
      in (''tmdb_movies_'' @ suffix @ ''.csv'', ''tmdb_movies_'' @ suffix @ ''.parquet''))"


subsection \<open>Properties of the normalizer\<close>

lemma COLS_distinct: "distinct COLS"
  by (simp add: COLS_def)

lemma normalize_row_keys:
  "normalize_row other ib ps gm m = Inr row \<Longrightarrow> map fst row = COLS"
  by (auto simp: normalize_row_def COLS_def Let_def split: sum.splits)

lemma normalize_rows_nth:
  "normalize_rows other ib ps gm ms = Inr rs \<Longrightarrow>
     length rs = length ms \<and> (\<forall>i<length ms. normalize_row other ib ps gm (ms ! i) = Inr (rs ! i))"
proof (induction ms arbitrary: rs)
  case Nil
  then show ?case by simp
next
  case (Cons m ms)
  then obtain r rs' where r: "normalize_row other ib ps gm m = Inr r"
    and rs': "normalize_rows other ib ps gm ms = Inr rs'" and rs: "rs = r # rs'"
    by (auto split: sum.splits)
  show ?case using Cons.IH [OF rs'] r rs by (auto simp: nth_Cons split: nat.splits)
qed

lemma normalize_rows_ok:
  "(\<And>m. m \<in> set ms \<Longrightarrow> \<exists>r. normalize_row other ib ps gm m = Inr r) \<Longrightarrow>
     \<exists>rs. normalize_rows other ib ps gm ms = Inr rs"
proof (induction ms)
  case Nil
  then show ?case by simp
next
  case (Cons m ms)
  obtain r where "normalize_row other ib ps gm m = Inr r" using Cons.prems by auto
  moreover obtain rs where "normalize_rows other ib ps gm ms = Inr rs" using Cons by auto
  ultimately show ?case by simp
qed

lemma fold_keys_known:
  "set ks \<subseteq> set acc \<Longrightarrow> fold (\<lambda>k acc. if k \<in> set acc then acc else acc @ [k]) ks acc = acc"
  by (induction ks arbitrary: acc) auto

lemma fold_keys_COLS: "fold (\<lambda>k acc. if k \<in> set acc then acc else acc @ [k]) COLS [] = COLS"
  by (simp add: COLS_def)

lemma concat_keys_subset:
  "\<forall>r\<in>set rs. map fst r = COLS \<Longrightarrow> set (concat (map (map fst) rs)) \<subseteq> set COLS"
  by (induction rs) auto

lemma union_keys_COLS:
  assumes "\<forall>r\<in>set rs. map fst r = COLS" "rs \<noteq> []"
  shows "union_keys rs = COLS"
proof -
  obtain r rs' where rs: "rs = r # rs'" using assms(2) by (cases rs) auto
  have r: "map fst r = COLS" and rest: "\<forall>r\<in>set rs'. map fst r = COLS"
    using assms(1) rs by auto
  have "union_keys rs =
      fold (\<lambda>k acc. if k \<in> set acc then acc else acc @ [k]) (concat (map (map fst) rs'))
        (fold (\<lambda>k acc. if k \<in> set acc then acc else acc @ [k]) COLS [])"
    by (simp add: union_keys_def rs r)
  also have "\<dots> = COLS"
    using concat_keys_subset [OF rest] by (simp add: fold_keys_COLS fold_keys_known)
  finally show ?thesis .
qed

lemma map_of_zip_all:
  assumes "distinct ks" "length ks = length vs"
  shows "map (\<lambda>c. case map_of (zip ks vs) c of None \<Rightarrow> PNone | Some v \<Rightarrow> v) ks = vs"
proof (rule nth_equalityI)
  show "length (map (\<lambda>c. case map_of (zip ks vs) c of None \<Rightarrow> PNone | Some v \<Rightarrow> v) ks) = length vs"
    using assms(2) by simp
next
  fix i assume "i < length (map (\<lambda>c. case map_of (zip ks vs) c of None \<Rightarrow> PNone | Some v \<Rightarrow> v) ks)"
  then have i: "i < length vs" using assms(2) by simp
  have "map_of (zip ks vs) (ks ! i) = Some (vs ! i)"
    using assms(2,1) i by (rule map_of_zip_nth)
  then show "map (\<lambda>c. case map_of (zip ks vs) c of None \<Rightarrow> PNone | Some v \<Rightarrow> v) ks ! i = vs ! i"
    using i assms(2) by simp
qed

lemma dict_get_keys:
  assumes "distinct (map fst d)"
  shows "map (dict_get d) (map fst d) = map snd d"
proof -
  have "dict_get d (fst kv) = snd kv" if "kv \<in> set d" for kv
  proof -
    have "map_of d (fst kv) = Some (snd kv)"
      using assms that by (intro map_of_is_SomeI) simp_all
    then show ?thesis by (simp add: dict_get_def)
  qed
  then show ?thesis by (simp add: comp_def)
qed

lemma frame_of_rows:
  assumes "\<forall>r\<in>set rs. map fst r = COLS"
  shows "reindex COLS (pd_DataFrame rs) = \<lparr>columns = COLS, rows = map (map snd) rs\<rparr>"
proof (cases "rs = []")
  case True
  then show ?thesis by (simp add: reindex_def pd_DataFrame_def)
next
  case False
  have u: "union_keys rs = COLS" using assms False by (rule union_keys_COLS)
  have "map (\<lambda>c. case map_of (zip COLS (map (dict_get r) COLS)) c of None \<Rightarrow> PNone | Some v \<Rightarrow> v) COLS
          = map snd r" if "r \<in> set rs" for r
  proof -
    have k: "map fst r = COLS" using assms that by blast
    have "map (dict_get r) COLS = map snd r"
      using dict_get_keys [of r] COLS_distinct k by simp
    moreover have "length COLS = length (map snd r)"
      using k by (metis length_map)
    ultimately show ?thesis using map_of_zip_all [of COLS "map snd r"] COLS_distinct by simp
  qed
  then show ?thesis by (simp add: reindex_def pd_DataFrame_def u)
qed

lemma cell_of_rows:
  assumes "map fst r = COLS" "i < length rs" "rs ! i = r"
  shows "cell \<lparr>columns = COLS, rows = map (map snd) rs\<rparr> i c = map_of r c"
proof -
  have "zip COLS (map snd r) = r"
    using assms(1) by (metis zip_map_fst_snd)
  then show ?thesis using assms by (simp add: cell_def)
qed

text \<open>What \<open>normalize_to_df\<close> returns: the schema's columns, and one row per record.\<close>

lemma normalize_to_df_rows:
  assumes "normalize_to_df other raws ib ps gm = Inr df"
  shows "columns df = COLS \<and> length (rows df) = length raws \<and>
     (\<forall>i<length raws. \<exists>row. normalize_row other ib ps gm (raws ! i) = Inr row \<and>
        (\<forall>c. cell df i c = map_of row c))"
proof -
  from assms obtain rs where rs: "normalize_rows other ib ps gm raws = Inr rs"
    and df: "df = reindex COLS (pd_DataFrame rs)"
    by (auto simp: normalize_to_df_def split: sum.splits)
  note n = normalize_rows_nth [OF rs]
  have keys: "\<forall>r\<in>set rs. map fst r = COLS"
  proof
    fix r assume "r \<in> set rs"
    then obtain i where "i < length rs" "rs ! i = r" by (auto simp: in_set_conv_nth)
    then show "map fst r = COLS" using n normalize_row_keys by metis
  qed
  have d: "df = \<lparr>columns = COLS, rows = map (map snd) rs\<rparr>"
    using df frame_of_rows [OF keys] by simp
  have "\<exists>row. normalize_row other ib ps gm (raws ! i) = Inr row \<and> (\<forall>c. cell df i c = map_of row c)"
    if i: "i < length raws" for i
  proof -
    have r: "normalize_row other ib ps gm (raws ! i) = Inr (rs ! i)" using n i by simp
    have "cell df i c = map_of (rs ! i) c" for c
      unfolding d using normalize_row_keys [OF r] i n by (intro cell_of_rows) simp_all
    then show ?thesis using r by blast
  qed
  then show ?thesis using d n by simp
qed


definition render_genre :: "genre_map \<Rightarrow> int \<Rightarrow> string" where
  "render_genre genres_map g = (case map_of genres_map g of Some name \<Rightarrow> name | None \<Rightarrow> str_int g)"

lemma genre_names_ints:
  "genre_names other gm (map PInt gids) = Inr (map (render_genre gm) gids)"
  by (induction gids) (simp_all add: genre_name_def render_genre_def split: option.splits)

definition well_typed_genres :: "pydict \<Rightarrow> int list \<Rightarrow> bool" where
  "well_typed_genres m gids = (dict_get_default m ''genre_ids'' (PList []) = PList (map PInt gids))"

lemma normalize_row_wf:
  assumes "well_typed_genres m gids"
  shows "normalize_row other ib ps gm m =
     Inr [(''tmdb_id'', dict_get m ''id''),
          (''title'', dict_get m ''title''),
          (''original_title'', dict_get m ''original_title''),
          (''release_date'', dict_get m ''release_date''),
          (''genres'', PStr (py_join ''|'' (map (render_genre gm) gids))),
          (''vote_average'', dict_get m ''vote_average''),
          (''vote_count'', dict_get m ''vote_count''),
          (''popularity'', dict_get m ''popularity''),
          (''original_language'', dict_get m ''original_language''),
          (''overview'', dict_get m ''overview''),
          (''poster_url'', if py_truthy (dict_get m ''poster_path'')
                           then PStr (ib @ ps @ py_str other (dict_get m ''poster_path''))
                           else PNone)]"
  using assms by (simp add: normalize_row_def well_typed_genres_def genre_names_ints Let_def)

lemma normalize_total:
  assumes "\<forall>m\<in>set raws. \<exists>gids. well_typed_genres m gids"
  shows "\<exists>df. normalize_to_df other raws ib ps gm = Inr df"
proof -
  have "\<exists>r. normalize_row other ib ps gm m = Inr r" if "m \<in> set raws" for m
    using assms that normalize_row_wf by blast
  then obtain rs where "normalize_rows other ib ps gm raws = Inr rs"
    using normalize_rows_ok by blast
  then show ?thesis by (simp add: normalize_to_df_def)
qed

lemma normalize_cells:
  assumes df: "normalize_to_df other raws ib ps gm = Inr df" and i: "i < length raws"
    and wf: "well_typed_genres (raws ! i) gids"
  shows "cell df i ''tmdb_id'' = Some (dict_get (raws ! i) ''id'')"
    "cell df i ''title'' = Some (dict_get (raws ! i) ''title'')"
    "cell df i ''original_title'' = Some (dict_get (raws ! i) ''original_title'')"
    "cell df i ''release_date'' = Some (dict_get (raws ! i) ''release_date'')"
    "cell df i ''genres'' = Some (PStr (py_join ''|'' (map (render_genre gm) gids)))"
    "cell df i ''vote_average'' = Some (dict_get (raws ! i) ''vote_average'')"
    "cell df i ''vote_count'' = Some (dict_get (raws ! i) ''vote_count'')"
    "cell df i ''popularity'' = Some (dict_get (raws ! i) ''popularity'')"
    "cell df i ''original_language'' = Some (dict_get (raws ! i) ''original_language'')"
    "cell df i ''overview'' = Some (dict_get (raws ! i) ''overview'')"
    "cell df i ''poster_url'' = Some (if py_truthy (dict_get (raws ! i) ''poster_path'')
        then PStr (ib @ ps @ py_str other (dict_get (raws ! i) ''poster_path'')) else PNone)"
proof -
  from normalize_to_df_rows [OF df] i obtain row
    where r: "normalize_row other ib ps gm (raws ! i) = Inr row" and c: "\<And>c. cell df i c = map_of row c"
    by blast
  note row = r [unfolded normalize_row_wf [OF wf], simplified, symmetric]
  show "cell df i ''tmdb_id'' = Some (dict_get (raws ! i) ''id'')" by (simp add: c row)
  show "cell df i ''title'' = Some (dict_get (raws ! i) ''title'')" by (simp add: c row)
  show "cell df i ''original_title'' = Some (dict_get (raws ! i) ''original_title'')" by (simp add: c row)
  show "cell df i ''release_date'' = Some (dict_get (raws ! i) ''release_date'')" by (simp add: c row)
  show "cell df i ''genres'' = Some (PStr (py_join ''|'' (map (render_genre gm) gids)))" by (simp add: c row)
  show "cell df i ''vote_average'' = Some (dict_get (raws ! i) ''vote_average'')" by (simp add: c row)
  show "cell df i ''vote_count'' = Some (dict_get (raws ! i) ''vote_count'')" by (simp add: c row)
  show "cell df i ''popularity'' = Some (dict_get (raws ! i) ''popularity'')" by (simp add: c row)
  show "cell df i ''original_language'' = Some (dict_get (raws ! i) ''original_language'')" by (simp add: c row)
  show "cell df i ''overview'' = Some (dict_get (raws ! i) ''overview'')" by (simp add: c row)
  show "cell df i ''poster_url'' = Some (if py_truthy (dict_get (raws ! i) ''poster_path'')
        then PStr (ib @ ps @ py_str other (dict_get (raws ! i) ''poster_path'')) else PNone)"
    by (simp add: c row)
qed


text \<open>
  The records on which the normalizer does not raise: \<open>genre_ids\<close> is missing, or can be
  iterated and holds only values that can be looked up in a dictionary.
\<close>

definition genres_readable :: "pydict \<Rightarrow> bool" where
  "genres_readable m =
     (case py_iter (dict_get_default m ''genre_ids'' (PList [])) of
        Inl err \<Rightarrow> False
      | Inr gids \<Rightarrow> list_all py_hashable gids)"

lemma genre_names_result:
  "genre_names other gm gids =
     (if list_all py_hashable gids then Inr (map (\<lambda>g. projr (genre_name other gm g)) gids)
      else Inl TypeError)"
  by (induction gids) (auto simp: genre_name_def)

lemma normalize_row_result:
  "(\<exists>row. normalize_row other ib ps gm m = Inr row) = genres_readable m"
  "\<not> genres_readable m \<Longrightarrow> normalize_row other ib ps gm m = Inl TypeError"
  by (auto simp: normalize_row_def genres_readable_def genre_names_result Let_def
      split: sum.splits elim: py_iter.elims)

lemma normalize_rows_result:
  "(\<exists>rs. normalize_rows other ib ps gm ms = Inr rs) = (\<forall>m\<in>set ms. genres_readable m)"
proof (induction ms)
  case Nil
  then show ?case by simp
next
  case (Cons m ms)
  show ?case
  proof (cases "genres_readable m")
    case True
    then obtain row where "normalize_row other ib ps gm m = Inr row"
      using normalize_row_result(1) by blast
    then show ?thesis using Cons True by (auto split: sum.splits)
  next
    case False
    then show ?thesis by (simp add: normalize_row_result(2))
  qed
qed

lemma normalize_rows_error:
  "normalize_rows other ib ps gm ms = Inl err \<Longrightarrow> err = TypeError"
proof (induction ms)
  case Nil
  then show ?case by simp
next
  case (Cons m ms)
  show ?case
  proof (cases "genres_readable m")
    case True
    then obtain row where "normalize_row other ib ps gm m = Inr row"
      using normalize_row_result(1) by blast
    then show ?thesis using Cons by (auto split: sum.splits)
  next
    case False
    then show ?thesis using Cons.prems by (simp add: normalize_row_result(2))
  qed
qed

lemma normalize_row_fields:
  assumes "normalize_row other ib ps gm m = Inr row"
  shows "map_of row ''tmdb_id'' = Some (dict_get m ''id'')"
    "map_of row ''title'' = Some (dict_get m ''title'')"
    "map_of row ''original_title'' = Some (dict_get m ''original_title'')"
    "map_of row ''release_date'' = Some (dict_get m ''release_date'')"
    "map_of row ''vote_average'' = Some (dict_get m ''vote_average'')"
    "map_of row ''vote_count'' = Some (dict_get m ''vote_count'')"
    "map_of row ''popularity'' = Some (dict_get m ''popularity'')"
    "map_of row ''original_language'' = Some (dict_get m ''original_language'')"
    "map_of row ''overview'' = Some (dict_get m ''overview'')"
    "map_of m ''poster_path'' = None \<Longrightarrow> map_of row ''poster_url'' = Some PNone"
    "map_of m ''genre_ids'' = None \<Longrightarrow> map_of row ''genres'' = Some (PStr [])"
  using assms
  by (auto simp: normalize_row_def Let_def dict_get_def dict_get_default_def split: sum.splits)

text \<open>
  Claim C7 (as amended). For every list of raw records, the empty list included,
  \<open>normalize_to_df\<close> returns a table exactly when the \<open>genre_ids\<close> of every record is missing
  or a collection of values that can be dictionary keys (a list of integer codes, say);
  otherwise it raises TypeError. A returned table has exactly the eleven columns of the
  schema, in order, and one row per record. A raw field that is missing gives a null in
  its cell for the ten fields read with \<open>m.get(key)\<close>; a missing \<open>genre_ids\<close> gives the
  empty string in \<open>genres\<close>, not a null.
\<close>

theorem normalize_to_df_schema:
  "((\<exists>df. normalize_to_df other raw_movies image_base poster_size genres_map = Inr df) \<longleftrightarrow>
      (\<forall>m\<in>set raw_movies. genres_readable m)) \<and>
   (\<forall>err. normalize_to_df other raw_movies image_base poster_size genres_map = Inl err \<longrightarrow>
      err = TypeError) \<and>
   (\<forall>df. normalize_to_df other raw_movies image_base poster_size genres_map = Inr df \<longrightarrow>
     columns df = [''tmdb_id'', ''title'', ''original_title'', ''release_date'', ''genres'',
                   ''vote_average'', ''vote_count'', ''popularity'', ''original_language'',
                   ''overview'', ''poster_url''] \<and>
     length (rows df) = length raw_movies \<and>
     (\<forall>i<length raw_movies.
        (map_of (raw_movies ! i) ''id'' = None \<longrightarrow> cell df i ''tmdb_id'' = Some PNone) \<and>
        (map_of (raw_movies ! i) ''title'' = None \<longrightarrow> cell df i ''title'' = Some PNone) \<and>
        (map_of (raw_movies ! i) ''original_title'' = None \<longrightarrow> cell df i ''original_title'' = Some PNone) \<and>
        (map_of (raw_movies ! i) ''release_date'' = None \<longrightarrow> cell df i ''release_date'' = Some PNone) \<and>
        (map_of (raw_movies ! i) ''genre_ids'' = None \<longrightarrow> cell df i ''genres'' = Some (PStr [])) \<and>
        (map_of (raw_movies ! i) ''vote_average'' = None \<longrightarrow> cell df i ''vote_average'' = Some PNone) \<and>
        (map_of (raw_movies ! i) ''vote_count'' = None \<longrightarrow> cell df i ''vote_count'' = Some PNone) \<and>
        (map_of (raw_movies ! i) ''popularity'' = None \<longrightarrow> cell df i ''popularity'' = Some PNone) \<and>
        (map_of (raw_movies ! i) ''original_language'' = None \<longrightarrow> cell df i ''original_language'' = Some PNone) \<and>
        (map_of (raw_movies ! i) ''overview'' = None \<longrightarrow> cell df i ''overview'' = Some PNone) \<and>
        (map_of (raw_movies ! i) ''poster_path'' = None \<longrightarrow> cell df i ''poster_url'' = Some PNone)))"
proof (intro conjI allI impI)
  show "(\<exists>df. normalize_to_df other raw_movies image_base poster_size genres_map = Inr df) \<longleftrightarrow>
      (\<forall>m\<in>set raw_movies. genres_readable m)"
    using normalize_rows_result [of other image_base poster_size genres_map raw_movies]
    by (auto simp: normalize_to_df_def split: sum.splits)
next
  fix err
  assume "normalize_to_df other raw_movies image_base poster_size genres_map = Inl err"
  then have "normalize_rows other image_base poster_size genres_map raw_movies = Inl err"
    by (simp add: normalize_to_df_def split: sum.splits)
  then show "err = TypeError" by (rule normalize_rows_error)
next
  fix df
  assume df: "normalize_to_df other raw_movies image_base poster_size genres_map = Inr df"
  show "columns df = [''tmdb_id'', ''title'', ''original_title'', ''release_date'', ''genres'',
                   ''vote_average'', ''vote_count'', ''popularity'', ''original_language'',
                   ''overview'', ''poster_url'']"
    using normalize_to_df_rows [OF df] by (simp add: COLS_def)
  show "length (rows df) = length raw_movies"
    using normalize_to_df_rows [OF df] by simp
  fix i
  assume i: "i < length raw_movies"
  from normalize_to_df_rows [OF df] i obtain row
    where r: "normalize_row other image_base poster_size genres_map (raw_movies ! i) = Inr row"
      and c: "\<And>c. cell df i c = map_of row c"
    by blast
  note f = normalize_row_fields [OF r]
  show "cell df i ''tmdb_id'' = Some PNone" if "map_of (raw_movies ! i) ''id'' = None"
    using that by (simp add: c f(1) dict_get_def)
  show "cell df i ''title'' = Some PNone" if "map_of (raw_movies ! i) ''title'' = None"
    using that by (simp add: c f(2) dict_get_def)
  show "cell df i ''original_title'' = Some PNone" if "map_of (raw_movies ! i) ''original_title'' = None"
    using that by (simp add: c f(3) dict_get_def)
  show "cell df i ''release_date'' = Some PNone" if "map_of (raw_movies ! i) ''release_date'' = None"
    using that by (simp add: c f(4) dict_get_def)
  show "cell df i ''genres'' = Some (PStr [])" if "map_of (raw_movies ! i) ''genre_ids'' = None"
    using that by (simp add: c f(11))
  show "cell df i ''vote_average'' = Some PNone" if "map_of (raw_movies ! i) ''vote_average'' = None"
    using that by (simp add: c f(5) dict_get_def)
  show "cell df i ''vote_count'' = Some PNone" if "map_of (raw_movies ! i) ''vote_count'' = None"
    using that by (simp add: c f(6) dict_get_def)
  show "cell df i ''popularity'' = Some PNone" if "map_of (raw_movies ! i) ''popularity'' = None"
    using that by (simp add: c f(7) dict_get_def)
  show "cell df i ''original_language'' = Some PNone" if "map_of (raw_movies ! i) ''original_language'' = None"
    using that by (simp add: c f(8) dict_get_def)
  show "cell df i ''overview'' = Some PNone" if "map_of (raw_movies ! i) ''overview'' = None"
    using that by (simp add: c f(9) dict_get_def)
  show "cell df i ''poster_url'' = Some PNone" if "map_of (raw_movies ! i) ''poster_path'' = None"
    using that by (simp add: c f(10))
qed

theorem normalize_to_df_schema_witness:
  "\<exists>df. normalize_to_df (\<lambda>v. []) [[], [(''id'', PInt 7)]] ''https://cdn/'' ''w500'' [] = Inr df \<and>
     columns df = [''tmdb_id'', ''title'', ''original_title'', ''release_date'', ''genres'',
                   ''vote_average'', ''vote_count'', ''popularity'', ''original_language'',
                   ''overview'', ''poster_url''] \<and>
     length (rows df) = 2 \<and> cell df 0 ''tmdb_id'' = Some PNone \<and>
     cell df 0 ''genres'' = Some (PStr []) \<and> cell df 1 ''poster_url'' = Some PNone"
proof -
  let ?raws = "[[], [(''id'', PInt 7)]] :: pydict list"
  note t = normalize_to_df_schema [of "\<lambda>v. []" ?raws "''https://cdn/''" "''w500''" "[]"]
  have rd: "\<forall>m\<in>set ?raws. genres_readable m"
    by (simp add: genres_readable_def dict_get_default_def)
  from t rd obtain df where df: "normalize_to_df (\<lambda>v. []) ?raws ''https://cdn/'' ''w500'' [] = Inr df"
    by blast
  from t df have cols: "columns df = [''tmdb_id'', ''title'', ''original_title'', ''release_date'',
        ''genres'', ''vote_average'', ''vote_count'', ''popularity'', ''original_language'',
        ''overview'', ''poster_url'']"
    and len: "length (rows df) = length ?raws"
    by blast+
  from t df have c0: "map_of (?raws ! 0) ''id'' = None \<longrightarrow> cell df 0 ''tmdb_id'' = Some PNone"
    and g0: "map_of (?raws ! 0) ''genre_ids'' = None \<longrightarrow> cell df 0 ''genres'' = Some (PStr [])"
    and c1: "map_of (?raws ! 1) ''poster_path'' = None \<longrightarrow> cell df 1 ''poster_url'' = Some PNone"
    by (simp_all del: map_of.simps)
  have "cell df 0 ''tmdb_id'' = Some PNone" using c0 by simp
  moreover have "cell df 0 ''genres'' = Some (PStr [])" using g0 by simp
  moreover have "cell df 1 ''poster_url'' = Some PNone" using c1 by simp
  ultimately show ?thesis using df cols len by (intro exI [of _ df]) simp
qed

text \<open>A renderer for the examples, where no float, list or dictionary is rendered.\<close>

definition blank_renderer :: renderer where
  "blank_renderer v = []"

lemma normalize_row_empty:
  "normalize_row other ib ps gm [] =
     Inr [(''tmdb_id'', PNone), (''title'', PNone), (''original_title'', PNone),
          (''release_date'', PNone), (''genres'', PStr []), (''vote_average'', PNone),
          (''vote_count'', PNone), (''popularity'', PNone), (''original_language'', PNone),
          (''overview'', PNone), (''poster_url'', PNone)]"
  by (simp add: normalize_row_def dict_get_def dict_get_default_def)

text \<open>
  The claim as stated fails twice. A record with no \<open>genre_ids\<close> gets the empty string in
  \<open>genres\<close>, which is not a null; and a record whose \<open>genre_ids\<close> is null makes the function
  raise TypeError.
\<close>

theorem normalize_missing_genres_counterexample:
  "normalize_to_df blank_renderer [[]] ''https://cdn/'' ''w500'' [] =
     Inr \<lparr>columns = [''tmdb_id'', ''title'', ''original_title'', ''release_date'', ''genres'',
                      ''vote_average'', ''vote_count'', ''popularity'', ''original_language'',
                      ''overview'', ''poster_url''],
          rows = [[PNone, PNone, PNone, PNone, PStr [], PNone, PNone, PNone, PNone, PNone, PNone]]\<rparr> \<and>
   map_of ([] :: pydict) ''genre_ids'' = None \<and>
   cell \<lparr>columns = [''tmdb_id'', ''title'', ''original_title'', ''release_date'', ''genres'',
                    ''vote_average'', ''vote_count'', ''popularity'', ''original_language'',
                    ''overview'', ''poster_url''],
         rows = [[PNone, PNone, PNone, PNone, PStr [], PNone, PNone, PNone, PNone, PNone, PNone]]\<rparr>
     0 ''genres'' = Some (PStr []) \<and>
   PStr [] \<noteq> PNone \<and>
   normalize_to_df blank_renderer [[(''genre_ids'', PNone)]] ''https://cdn/'' ''w500'' [] = Inl TypeError"
proof -
  let ?row = "[(''tmdb_id'', PNone), (''title'', PNone), (''original_title'', PNone),
          (''release_date'', PNone), (''genres'', PStr []), (''vote_average'', PNone),
          (''vote_count'', PNone), (''popularity'', PNone), (''original_language'', PNone),
          (''overview'', PNone), (''poster_url'', PNone)] :: pydict"
  have "reindex COLS (pd_DataFrame [?row]) = \<lparr>columns = COLS, rows = map (map snd) [?row]\<rparr>"
    by (rule frame_of_rows) (simp add: COLS_def)
  then have "normalize_to_df blank_renderer [[]] ''https://cdn/'' ''w500'' [] =
      Inr \<lparr>columns = COLS, rows = map (map snd) [?row]\<rparr>"
    by (simp add: normalize_to_df_def normalize_row_empty)
  moreover have "normalize_to_df blank_renderer [[(''genre_ids'', PNone)]] ''https://cdn/'' ''w500'' [] = Inl TypeError"
    by (simp add: normalize_to_df_def normalize_row_def dict_get_default_def)
  ultimately show ?thesis by (simp add: COLS_def cell_def)
qed


text \<open>
  Claim C8. For every raw record and genre map, the \<open>genres\<close> field is the list of genre
  codes rendered one by one and joined with \<open>|\<close> in the order of the list: a code that is
  a key of the map is rendered as its name, any other code as its decimal string, and an
  empty or missing list of codes gives the empty string.
\<close>

theorem normalize_genres_field:
  assumes "length gss = length raw_movies"
    and "\<forall>i<length raw_movies. well_typed_genres (raw_movies ! i) (gss ! i)"
  shows "\<exists>df. normalize_to_df other raw_movies image_base poster_size genres_map = Inr df \<and>
     (\<forall>i<length raw_movies.
        cell df i ''genres'' =
          Some (PStr (py_join ''|''
            (map (\<lambda>g. case map_of genres_map g of Some name \<Rightarrow> name | None \<Rightarrow> str_int g) (gss ! i)))) \<and>
        (gss ! i = [] \<longrightarrow> cell df i ''genres'' = Some (PStr [])))"
proof -
  have "\<forall>m\<in>set raw_movies. \<exists>gids. well_typed_genres m gids"
    using assms(2) by (metis in_set_conv_nth)
  then obtain df where df: "normalize_to_df other raw_movies image_base poster_size genres_map = Inr df"
    using normalize_total by blast
  have r: "render_genre genres_map = (\<lambda>g. case map_of genres_map g of Some name \<Rightarrow> name | None \<Rightarrow> str_int g)"
    by (rule ext) (simp add: render_genre_def)
  have "cell df i ''genres'' = Some (PStr (py_join ''|'' (map (render_genre genres_map) (gss ! i))))"
    if "i < length raw_movies" for i
    using df that by (rule normalize_cells(5)) (use assms(2) that in blast)
  then have "\<forall>i<length raw_movies.
        cell df i ''genres'' = Some (PStr (py_join ''|'' (map (render_genre genres_map) (gss ! i)))) \<and>
        (gss ! i = [] \<longrightarrow> cell df i ''genres'' = Some (PStr []))"
    by simp
  then show ?thesis using df unfolding r by (intro exI conjI)
qed

lemma str_int_examples: "str_int 9999 = ''9999''" "str_int 28 = ''28''" "str_int (- 5) = ''-5''" "str_int 0 = ''0''"
  by (simp_all add: str_int_def str_nat.simps digit_char_def)

theorem normalize_genres_field_witness:
  "\<exists>df. normalize_to_df (\<lambda>v. [])
          [[(''id'', PInt 1), (''genre_ids'', PList [PInt 28, PInt 9999, PInt 35])], [(''id'', PInt 2)]]
          ''https://cdn/'' ''w500'' [(28, ''Action''), (35, ''Comedy'')] = Inr df \<and>
     cell df 0 ''genres'' = Some (PStr ''Action|9999|Comedy'') \<and>
     cell df 1 ''genres'' = Some (PStr '''')"
proof -
  let ?raws = "[[(''id'', PInt 1), (''genre_ids'', PList [PInt 28, PInt 9999, PInt 35])], [(''id'', PInt 2)]]"
  let ?gss = "[[28, 9999, 35], []] :: int list list"
  have len: "length ?gss = length ?raws" by simp
  have wf: "\<forall>i<length ?raws. well_typed_genres (?raws ! i) (?gss ! i)"
    by (auto simp: well_typed_genres_def dict_get_default_def less_Suc_eq numeral_2_eq_2)
  have "\<exists>df. normalize_to_df (\<lambda>v. []) ?raws ''https://cdn/'' ''w500'' [(28, ''Action''), (35, ''Comedy'')] = Inr df \<and>
     (\<forall>i<length ?raws.
        cell df i ''genres'' =
          Some (PStr (py_join ''|''
            (map (\<lambda>g. case map_of [(28, ''Action''), (35, ''Comedy'')] g of Some name \<Rightarrow> name | None \<Rightarrow> str_int g) (?gss ! i)))) \<and>
        (?gss ! i = [] \<longrightarrow> cell df i ''genres'' = Some (PStr [])))" (is "\<exists>df. ?D df \<and> ?C df")
    using len wf by (rule normalize_genres_field)
  then obtain df where df: "?D df" and c: "?C df" by (elim exE conjE)
  have "cell df 0 ''genres'' = Some (PStr ''Action|9999|Comedy'')"
    using c [rule_format, of 0] by (simp add: str_int_examples)
  moreover have "cell df 1 ''genres'' = Some (PStr '''')"
    using c [rule_format, of 1] by simp
  ultimately show ?thesis using df by (intro exI conjI)
qed

text \<open>
  Claim C10. A raw record whose \<open>poster_path\<close> is present but is the empty string gets a
  null \<open>poster_url\<close>: the URL is built exactly when \<open>poster_path\<close> is a truthy value, and
  for a non-empty string it is image base, size token and path put together.
\<close>

theorem poster_url_needs_truthy_path:
  assumes "\<forall>m\<in>set raw_movies. \<exists>gids. well_typed_genres m gids"
  shows "\<exists>df. normalize_to_df other raw_movies image_base poster_size genres_map = Inr df \<and>
     (\<forall>i<length raw_movies.
        (map_of (raw_movies ! i) ''poster_path'' = Some (PStr []) \<longrightarrow>
           cell df i ''poster_url'' = Some PNone) \<and>
        ((cell df i ''poster_url'' = Some PNone) = (\<not> py_truthy (dict_get (raw_movies ! i) ''poster_path''))) \<and>
        (\<forall>p. p \<noteq> [] \<and> map_of (raw_movies ! i) ''poster_path'' = Some (PStr p) \<longrightarrow>
           cell df i ''poster_url'' = Some (PStr (image_base @ poster_size @ p))))"
proof -
  obtain df where df: "normalize_to_df other raw_movies image_base poster_size genres_map = Inr df"
    using normalize_total [OF assms] by blast
  have "(map_of (raw_movies ! i) ''poster_path'' = Some (PStr []) \<longrightarrow>
           cell df i ''poster_url'' = Some PNone) \<and>
        ((cell df i ''poster_url'' = Some PNone) = (\<not> py_truthy (dict_get (raw_movies ! i) ''poster_path''))) \<and>
        (\<forall>p. p \<noteq> [] \<and> map_of (raw_movies ! i) ''poster_path'' = Some (PStr p) \<longrightarrow>
           cell df i ''poster_url'' = Some (PStr (image_base @ poster_size @ p)))"
    if i: "i < length raw_movies" for i
  proof -
    obtain gids where "well_typed_genres (raw_movies ! i) gids"
      using assms i by (meson nth_mem)
    note c = normalize_cells(11) [OF df i this]
    show ?thesis by (simp add: c dict_get_def)
  qed
  then show ?thesis using df by blast
qed

theorem poster_url_needs_truthy_path_witness:
  "\<exists>df. normalize_to_df (\<lambda>v. [])
          [[(''id'', PInt 1), (''poster_path'', PStr [])], [(''id'', PInt 2), (''poster_path'', PStr ''/abc123.jpg'')]]
          ''https://cdn/'' ''w500'' [] = Inr df \<and>
     cell df 0 ''poster_url'' = Some PNone \<and>
     cell df 1 ''poster_url'' = Some (PStr ''https://cdn/w500/abc123.jpg'')"
proof -
  let ?raws = "[[(''id'', PInt 1), (''poster_path'', PStr [])], [(''id'', PInt 2), (''poster_path'', PStr ''/abc123.jpg'')]]"
  have wf: "\<forall>m\<in>set ?raws. \<exists>gids. well_typed_genres m gids"
    by (auto simp: well_typed_genres_def dict_get_default_def intro: exI [of _ "[]"])
  have "\<exists>df. normalize_to_df (\<lambda>v. []) ?raws ''https://cdn/'' ''w500'' [] = Inr df \<and>
     (\<forall>i<length ?raws.
        (map_of (?raws ! i) ''poster_path'' = Some (PStr []) \<longrightarrow>
           cell df i ''poster_url'' = Some PNone) \<and>
        ((cell df i ''poster_url'' = Some PNone) = (\<not> py_truthy (dict_get (?raws ! i) ''poster_path''))) \<and>
        (\<forall>p. p \<noteq> [] \<and> map_of (?raws ! i) ''poster_path'' = Some (PStr p) \<longrightarrow>
           cell df i ''poster_url'' = Some (PStr (''https://cdn/'' @ ''w500'' @ p))))" (is "\<exists>df. ?D df \<and> ?C df")
    using wf by (rule poster_url_needs_truthy_path)
  then obtain df where df: "?D df" and c: "?C df" by (elim exE conjE)
  have "cell df 0 ''poster_url'' = Some PNone"
    using c [rule_format, of 0] by simp
  moreover have "cell df 1 ''poster_url'' = Some (PStr ''https://cdn/w500/abc123.jpg'')"
    using c [rule_format, of 1] by simp
  ultimately show ?thesis using df by (intro exI conjI)
qed

section \<open>Files and the trace of a run\<close>

text \<open>
  What a file at the checkpoint path holds, by what \<open>json.load\<close> makes of it: the UTF-8
  text of a JSON document (with the value it is read as), UTF-8 text that is no JSON
  document, or bytes that are not UTF-8. \<open>json.dump\<close> followed by \<open>json.load\<close> gives the
  value back: that is the JSON library's contract, taken as given.
\<close>

datatype content = JsonText pyval | OtherText | Binary

text \<open>
  What is at a path: a regular file that can be opened, a directory, or a file the
  process is not allowed to open. Opening either of the last two raises OSError.
\<close>

datatype node = Regular content | Directory | NoAccess

text \<open>A stored table: a Parquet file, a CSV file, or a file that cannot be read as a table.\<close>

datatype table_file = ParquetFile dataframe | CsvFile dataframe | Damaged

text \<open>
  The files the pipeline touches: the checkpoint \<open>tmdb_monthly_checkpoint.json\<close>, its
  temporary sibling with the suffix \<open>.tmp\<close>, the files of the directory
  \<open>tmdb_monthly_parts\<close> by name, and the files of the working directory that hold tables,
  by path. The four kinds of path never coincide.
\<close>

record fs =
  checkpoint :: "node option"
  checkpoint_tmp :: "node option"
  parts :: "(string \<times> table_file) list"
  masters :: "(string \<times> table_file) list"

text \<open>
  What a run leaves for an observer, in order: the requests sent (URL and parameters),
  the sleeps (in seconds) and the log records, each with the values its message shows.
\<close>

datatype event =
    Requested string pydict
  | Slept rat
  | Warning_request_error nat int rat
  | Warning_rate_limited rat nat
  | Warning_server_error int rat
  | Warning_page_cap pyval string string int pyval
  | Warning_checkpoint_corrupted
  | Warning_no_parts
  | Info_text string
  | Info_skip string string
  | Info_processing string string
  | Info_raw_items nat
  | Info_saved_part string nat
  | Info_final_rows nat
  | Info_saved_masters string string
  | Error_during_month string string error

text \<open>
  The world a run acts on: the files, the trace so far, and the number of requests the
  remote service has been sent.
\<close>

record world =
  files :: fs
  trace :: "event list"
  served :: nat

definition emit :: "event \<Rightarrow> world \<Rightarrow> world" where
  "emit ev w = w\<lparr>trace := trace w @ [ev]\<rparr>"

section \<open>Checkpoint\<close>

definition empty_checkpoint :: pyval where
  "empty_checkpoint = PDict [(''done_months'', PList [])]"

text \<open>\<open>open(path, "r")\<close> on what is at the path.\<close>

fun open_read :: "node \<Rightarrow> error + content" where
  "open_read (Regular c) = Inr c"
| "open_read Directory = Inl OSError"
| "open_read NoAccess = Inl OSError"

text \<open>
  \<open>json.load(f)\<close> on a file opened with \<open>encoding="utf-8"\<close>: reading bytes that are not
  UTF-8 raises UnicodeDecodeError, text that is no JSON document raises JSONDecodeError.
\<close>

fun json_load :: "content \<Rightarrow> error + pyval" where
  "json_load (JsonText v) = Inr v"
| "json_load OtherText = Inl JSONDecodeError"
| "json_load Binary = Inl UnicodeDecodeError"

text \<open>
  \<open>load_checkpoint\<close>:
  \<^verbatim>\<open>
    if CHECKPOINT_MONTHS.exists():
        try:
            with open(CHECKPOINT_MONTHS, "r", encoding="utf-8") as f:
                return json.load(f)
        except (json.JSONDecodeError, OSError):
            log.warning("Checkpoint file corrupted, starting fresh.")
            return {"done_months": []}
    return {"done_months": []}
  \<close>
  Any other exception leaves the function.
\<close>

definition load_checkpoint :: "world \<Rightarrow> world \<times> (error + pyval)" where
  "load_checkpoint w =
     (case checkpoint (files w) of
        None \<Rightarrow> (w, Inr empty_checkpoint)
      | Some n \<Rightarrow>
          (case (case open_read n of Inl err \<Rightarrow> Inl err | Inr c \<Rightarrow> json_load c) of
             Inr v \<Rightarrow> (w, Inr v)
           | Inl err \<Rightarrow>
               if err = JSONDecodeError \<or> err = OSError
               then (emit Warning_checkpoint_corrupted w, Inr empty_checkpoint)
               else (w, Inl err)))"



section \<open>Properties of the checkpoint\<close>

text \<open>
  Claim C5 (as amended). \<open>load_checkpoint\<close> leaves the files as they are. Unless the
  checkpoint file holds bytes that are not UTF-8, it returns a value and does not raise:
  the empty checkpoint when the file is absent (silently), and the empty checkpoint after
  a warning when the file cannot be opened or holds text that is no JSON document. A file
  that holds a JSON document is returned as read, whatever its shape.
\<close>

theorem load_checkpoint_total:
  "files (fst (load_checkpoint w)) = files w \<and>
   (checkpoint (files w) \<noteq> Some (Regular Binary) \<longrightarrow> (\<exists>v. snd (load_checkpoint w) = Inr v)) \<and>
   (checkpoint (files w) = None \<longrightarrow> load_checkpoint w = (w, Inr empty_checkpoint)) \<and>
   (checkpoint (files w) = Some Directory \<or> checkpoint (files w) = Some NoAccess \<or>
    checkpoint (files w) = Some (Regular OtherText) \<longrightarrow>
      load_checkpoint w = (emit Warning_checkpoint_corrupted w, Inr empty_checkpoint)) \<and>
   (\<forall>v. checkpoint (files w) = Some (Regular (JsonText v)) \<longrightarrow> load_checkpoint w = (w, Inr v))"
proof -
  have "files (fst (load_checkpoint w)) = files w"
    by (simp add: load_checkpoint_def emit_def split: option.splits sum.splits)
  moreover have "\<exists>v. snd (load_checkpoint w) = Inr v" if "checkpoint (files w) \<noteq> Some (Regular Binary)"
  proof (cases "checkpoint (files w)")
    case None
    then show ?thesis by (simp add: load_checkpoint_def)
  next
    case (Some n)
    show ?thesis
    proof (cases n)
      case (Regular c)
      then show ?thesis using Some that by (cases c) (simp_all add: load_checkpoint_def)
    qed (simp_all add: Some load_checkpoint_def)
  qed
  moreover have "checkpoint (files w) = None \<longrightarrow> load_checkpoint w = (w, Inr empty_checkpoint)"
    by (simp add: load_checkpoint_def)
  moreover have "checkpoint (files w) = Some Directory \<or> checkpoint (files w) = Some NoAccess \<or>
      checkpoint (files w) = Some (Regular OtherText) \<longrightarrow>
      load_checkpoint w = (emit Warning_checkpoint_corrupted w, Inr empty_checkpoint)"
    by (auto simp: load_checkpoint_def)
  moreover have "\<forall>v. checkpoint (files w) = Some (Regular (JsonText v)) \<longrightarrow> load_checkpoint w = (w, Inr v)"
    by (simp add: load_checkpoint_def)
  ultimately show ?thesis by blast
qed

text \<open>A world with nothing in it but a checkpoint file.\<close>

definition world_with :: "node option \<Rightarrow> world" where
  "world_with n =
     \<lparr>files = \<lparr>checkpoint = n, checkpoint_tmp = None, parts = [], masters = []\<rparr>, trace = [],
      served = 0\<rparr>"

theorem load_checkpoint_total_witness:
  "load_checkpoint (world_with (Some (Regular OtherText))) =
     (emit Warning_checkpoint_corrupted (world_with (Some (Regular OtherText))), Inr empty_checkpoint) \<and>
   load_checkpoint (world_with (Some NoAccess)) =
     (emit Warning_checkpoint_corrupted (world_with (Some NoAccess)), Inr empty_checkpoint) \<and>
   load_checkpoint (world_with None) = (world_with None, Inr empty_checkpoint) \<and>
   load_checkpoint (world_with (Some (Regular (JsonText (PDict [(''done_months'', PList [PStr ''a''])]))))) =
     (world_with (Some (Regular (JsonText (PDict [(''done_months'', PList [PStr ''a''])])))),
      Inr (PDict [(''done_months'', PList [PStr ''a''])]))"
  using load_checkpoint_total [of "world_with (Some (Regular OtherText))"]
    load_checkpoint_total [of "world_with (Some NoAccess)"]
    load_checkpoint_total [of "world_with None"]
    load_checkpoint_total [of "world_with (Some (Regular (JsonText (PDict [(''done_months'', PList [PStr ''a''])]))))"]
  by (simp add: world_with_def)

text \<open>
  The claim as stated fails: a checkpoint file that holds the JSON document \<open>[]\<close> does
  not have the checkpoint structure, and \<open>load_checkpoint\<close> returns the empty list, not
  the empty checkpoint.
\<close>

theorem load_checkpoint_shape_counterexample:
  "load_checkpoint (world_with (Some (Regular (JsonText (PList []))))) =
     (world_with (Some (Regular (JsonText (PList [])))), Inr (PList [])) \<and>
   PList [] \<noteq> empty_checkpoint"
  by (simp add: load_checkpoint_def world_with_def empty_checkpoint_def)



section \<open>HTTP helper with retries\<close>















subsection \<open>What a call of \<open>safe_get\<close> does\<close>



















section \<open>Discover (paged)\<close>









subsection \<open>The pages a call fetches\<close>

















end
